theory Spec2Isabelle
  imports Complex_Main
begin

section \<open>Ear training: sequence generation, scoring and session state\<close>

text \<open>
  A shallow embedding of \<^verbatim>\<open>backend.py\<close> and \<^verbatim>\<open>EarTraining.py\<close>. Python exceptions are
  values of \<open>py_error\<close>, a fallible computation returns \<open>py_error + 'a\<close> with \<open>Inl\<close>
  the exception. Dictionaries are association lists read with \<open>map_of\<close>; none of the
  literals of the source repeats a key.
\<close>

subsection \<open>Exceptions and dictionaries\<close>

datatype py_error = KeyError | IndexError | ValueError | OSError

definition dict_get :: "(string \<times> int) list \<Rightarrow> string \<Rightarrow> py_error + int" where
  \<comment> \<open>\<^verbatim>\<open>d[k]\<close>: KeyError when the key is absent.\<close>
  "dict_get d k = (case map_of d k of None \<Rightarrow> Inl KeyError | Some v \<Rightarrow> Inr v)"

fun map_result :: "('a \<Rightarrow> py_error + 'b) \<Rightarrow> 'a list \<Rightarrow> py_error + 'b list" where
  \<comment> \<open>A list comprehension whose element expression may raise: the first exception ends it.\<close>
  "map_result f [] = Inr []"
| "map_result f (x # xs) =
     (case f x of
        Inl e \<Rightarrow> Inl e
      | Inr y \<Rightarrow> (case map_result f xs of Inl e \<Rightarrow> Inl e | Inr ys \<Rightarrow> Inr (y # ys)))"

subsection \<open>The static tables\<close>

definition solfege_to_midi :: "(string \<times> int) list" where
  "solfege_to_midi =
     [(''do'', 60), (''ra'', 61), (''re'', 62), (''me'', 63), (''mi'', 64),
      (''fa'', 65), (''fi'', 66), (''sol'', 67), (''le'', 68), (''la'', 69),
      (''te'', 70), (''ti'', 71)]"

definition key_to_adjustment :: "(string \<times> int) list" where
  \<comment> \<open>The table of \<^verbatim>\<open>backend.py\<close>, lines 15 to 19, with its key \<^verbatim>\<open>A3\<close>.\<close>
  "key_to_adjustment =
     [(''C'', 0), (''C#'', 1), (''Db'', 1), (''D'', 2), (''D#'', 2), (''Eb'', 3),
      (''E'', 4), (''F'', 5), (''F#'', 6), (''Gb'', -6), (''G'', -5), (''G#'', -4),
      (''Ab'', -4), (''A'', -3), (''A3'', -2), (''Bb'', -2), (''B'', -1)]"

definition EarTraining_key_to_adjustment :: "(string \<times> int) list" where
  \<comment> \<open>The table of \<^verbatim>\<open>EarTraining.py\<close>, lines 13 to 17: the same but for the key \<^verbatim>\<open>A#\<close>.\<close>
  "EarTraining_key_to_adjustment =
     [(''C'', 0), (''C#'', 1), (''Db'', 1), (''D'', 2), (''D#'', 2), (''Eb'', 3),
      (''E'', 4), (''F'', 5), (''F#'', 6), (''Gb'', -6), (''G'', -5), (''G#'', -4),
      (''Ab'', -4), (''A'', -3), (''A#'', -2), (''Bb'', -2), (''B'', -1)]"

definition enharmonic_pairs :: "(string \<times> string) list" where
  \<comment> \<open>The sharp and flat spellings of the five black keys, as the key names of the tables
      write them.\<close>
  "enharmonic_pairs =
     [(''C#'', ''Db''), (''D#'', ''Eb''), (''F#'', ''Gb''), (''G#'', ''Ab''), (''A#'', ''Bb'')]"

definition same_pitch_class :: "(string \<times> int) list \<Rightarrow> string \<Rightarrow> string \<Rightarrow> bool" where
  \<comment> \<open>Both names are keys of the table and their offsets are equal modulo 12.\<close>
  "same_pitch_class tbl k1 k2 =
     (case (map_of tbl k1, map_of tbl k2) of
        (Some a, Some b) \<Rightarrow> a mod 12 = b mod 12
      | _ \<Rightarrow> False)"

subsection \<open>Scoring\<close>

definition match_at :: "'a list \<Rightarrow> 'a list \<Rightarrow> nat \<Rightarrow> py_error + int" where
  \<comment> \<open>\<^verbatim>\<open>1 if pre_octave_key_list[i] == user_input_list[i] else 0\<close> for an index \<open>i\<close> of
      \<^verbatim>\<open>range(len(pre_octave_key_list))\<close>: only the read of the user's list can be out of range.\<close>
  "match_at pre_octave_key_list user_input_list i =
     (if i < length user_input_list
      then Inr (if pre_octave_key_list ! i = user_input_list ! i then 1 else 0)
      else Inl IndexError)"

definition validate_user_input :: "'a list \<Rightarrow> 'a list \<Rightarrow> py_error + (int \<times> int list)" where
  "validate_user_input pre_octave_key_list user_input_list =
     (let overall_match = (if pre_octave_key_list = user_input_list then 1 else 0) in
      case map_result (match_at pre_octave_key_list user_input_list)
             [0 ..< length pre_octave_key_list] of
        Inl e \<Rightarrow> Inl e
      | Inr detailed_match \<Rightarrow> Inr (overall_match, detailed_match))"

subsection \<open>The reference cadence\<close>

record cadence =
  dominant :: "int \<times> int \<times> int"
  tonic :: "int \<times> int \<times> int"

definition reference_cadence_in :: "(string \<times> int) list \<Rightarrow> string \<Rightarrow> py_error + cadence" where
  \<comment> \<open>The body of \<^verbatim>\<open>generate_reference_cadence\<close>; the module's global key table is a parameter.\<close>
  "reference_cadence_in key_table key =
     (case dict_get solfege_to_midi ''do'' of
        Inl e \<Rightarrow> Inl e
      | Inr do_note \<Rightarrow>
          (case dict_get key_table key of
             Inl e \<Rightarrow> Inl e
           | Inr adj \<Rightarrow>
               (let key_note = do_note + adj in
                Inr \<lparr> dominant = (key_note - 5, key_note - 1, key_note + 2),
                      tonic = (key_note, key_note + 4, key_note + 7) \<rparr>)))"

definition generate_reference_cadence :: "string \<Rightarrow> py_error + cadence" where
  "generate_reference_cadence = reference_cadence_in key_to_adjustment"

subsection \<open>The random source\<close>

text \<open>
  The calls of the module \<^verbatim>\<open>random\<close> read a stream of raw draws, one per call. Every
  sequence of outcomes of \<^verbatim>\<open>random.choice\<close>, \<^verbatim>\<open>random.randint\<close> and \<^verbatim>\<open>random.random\<close>
  is the reading of some stream, so a statement about every stream is a statement about
  every random source.
\<close>

type_synonym rng = "nat \<Rightarrow> nat"

definition rng_rest :: "rng \<Rightarrow> rng" where
  "rng_rest r = (\<lambda>i. r (Suc i))"

definition random_choice :: "'a list \<Rightarrow> rng \<Rightarrow> py_error + ('a \<times> rng)" where
  \<comment> \<open>\<^verbatim>\<open>random.choice(seq)\<close>: IndexError on an empty sequence, else one of its elements.\<close>
  "random_choice xs r =
     (if xs = [] then Inl IndexError else Inr (xs ! (r 0 mod length xs), rng_rest r))"

definition random_randint :: "int \<Rightarrow> int \<Rightarrow> rng \<Rightarrow> py_error + (int \<times> rng)" where
  \<comment> \<open>\<^verbatim>\<open>random.randint(a, b)\<close>: ValueError on an empty range, else a value of \<open>[a, b]\<close>.\<close>
  "random_randint a b r =
     (if b < a then Inl ValueError
      else Inr (a + int (r 0 mod nat (b - a + 1)), rng_rest r))"

definition random_random :: "rng \<Rightarrow> nat \<times> rng" where
  \<comment> \<open>\<^verbatim>\<open>random.random()\<close> is \<open>k / 2 ^ 53\<close> for an integer \<open>0 \<le> k < 2 ^ 53\<close>; the model returns
      \<open>k\<close>.\<close>
  "random_random r = (r 0 mod 2 ^ 53, rng_rest r)"

definition below_three_quarters :: "nat \<Rightarrow> bool" where
  \<comment> \<open>\<^verbatim>\<open>random.random() < 0.75\<close> on the numerator: \<open>k / 2 ^ 53 < 3 / 4\<close>, an exact comparison
      since 0.75 is a binary fraction.\<close>
  "below_three_quarters k = (4 * k < 3 * 2 ^ 53)"

subsection \<open>Strings\<close>

definition is_space :: "char \<Rightarrow> bool" where
  \<comment> \<open>The ASCII characters on which \<^verbatim>\<open>str.split()\<close> splits: tab to carriage return, the
      four separators 28 to 31, and the space.\<close>
  "is_space c = (let n = of_char c :: nat in (9 \<le> n \<and> n \<le> 13) \<or> (28 \<le> n \<and> n \<le> 32))"

fun split_from :: "string \<Rightarrow> string \<Rightarrow> string list" where
  \<comment> \<open>The word read so far, then the rest of the text.\<close>
  "split_from w [] = (if w = [] then [] else [w])"
| "split_from w (c # cs) =
     (if is_space c then (if w = [] then split_from [] cs else w # split_from [] cs)
      else split_from (w @ [c]) cs)"

definition split :: "string \<Rightarrow> string list" where
  \<comment> \<open>\<^verbatim>\<open>s.split()\<close>: the maximal runs of characters that are not whitespace.\<close>
  "split s = split_from [] s"

definition digit_char :: "nat \<Rightarrow> char" where
  \<comment> \<open>The decimal digit of a number below ten.\<close>
  "digit_char d = ''0123456789'' ! d"

fun str_nat :: "nat \<Rightarrow> string" where
  "str_nat n = (if n < 10 then [digit_char n] else str_nat (n div 10) @ [digit_char (n mod 10)])"

declare str_nat.simps [simp del]

definition str_int :: "int \<Rightarrow> string" where
  \<comment> \<open>\<^verbatim>\<open>str(i)\<close> for an integer: decimal, with a minus sign when negative.\<close>
  "str_int i = (if i < 0 then CHR ''-'' # str_nat (nat (- i)) else str_nat (nat i))"

fun join :: "string \<Rightarrow> string list \<Rightarrow> string" where
  \<comment> \<open>\<^verbatim>\<open>sep.join(parts)\<close>\<close>
  "join sep [] = []"
| "join sep [x] = x"
| "join sep (x # y # ys) = x @ sep @ join sep (y # ys)"

subsection \<open>The sequence generator\<close>

function fill_sequence ::
  "int list \<Rightarrow> int \<Rightarrow> int list \<Rightarrow> rng \<Rightarrow> py_error + (int list \<times> rng)" where
  \<comment> \<open>The \<^verbatim>\<open>while\<close> loop of lines 147 to 149. \<^verbatim>\<open>midi_sequence[-1]\<close> is \<open>last\<close>: the list
      starts with one note and only grows.\<close>
  "fill_sequence selected_midi_notes number_of_notes midi_sequence r =
     (if int (length midi_sequence) < number_of_notes then
        (case random_choice
                [note \<leftarrow> selected_midi_notes. note \<noteq> last midi_sequence] r of
           Inl e \<Rightarrow> Inl e
         | Inr (next_note, r') \<Rightarrow>
             fill_sequence selected_midi_notes number_of_notes (midi_sequence @ [next_note]) r')
      else Inr (midi_sequence, r))"
  by pat_completeness auto
termination
  by (relation "measure (\<lambda>(s, n, m, r). nat (n - int (length m)))") auto

declare fill_sequence.simps [simp del]

definition other_octaves :: "int \<Rightarrow> int \<Rightarrow> int list" where
  \<comment> \<open>\<^verbatim>\<open>[octave for octave in range(1, octave_range+1) if octave != octave_adjustments[-1]]\<close>\<close>
  "other_octaves octave_range prev = [octave \<leftarrow> [1 .. octave_range]. octave \<noteq> prev]"

fun octave_loop :: "nat \<Rightarrow> int \<Rightarrow> int list \<Rightarrow> rng \<Rightarrow> py_error + (int list \<times> rng)" where
  \<comment> \<open>The \<^verbatim>\<open>for _ in range(1, number_of_notes)\<close> loop of lines 155 to 160, on the number of
      iterations left.\<close>
  "octave_loop 0 octave_range octave_adjustments r = Inr (octave_adjustments, r)"
| "octave_loop (Suc k) octave_range octave_adjustments r =
     (if last octave_adjustments = 1 then
        (case random_random r of
           (x, r1) \<Rightarrow>
             if below_three_quarters x
             then octave_loop k octave_range (octave_adjustments @ [1]) r1
             else (case random_choice (other_octaves octave_range (last octave_adjustments)) r1 of
                     Inl e \<Rightarrow> Inl e
                   | Inr (next_octave, r2) \<Rightarrow>
                       octave_loop k octave_range (octave_adjustments @ [next_octave]) r2))
      else
        (case random_choice (other_octaves octave_range (last octave_adjustments)) r of
           Inl e \<Rightarrow> Inl e
         | Inr (next_octave, r1) \<Rightarrow>
             octave_loop k octave_range (octave_adjustments @ [next_octave]) r1))"

definition selected_midi_notes :: "string \<Rightarrow> py_error + int list" where
  \<comment> \<open>Lines 142 and 143: the syllables of the text, each looked up in \<^verbatim>\<open>solfege_to_midi\<close>;
      KeyError at the first that is not a key.\<close>
  "selected_midi_notes solfege_syllables =
     (let solfege_list = split solfege_syllables in
      map_result (dict_get solfege_to_midi) solfege_list)"

definition test_sequence_in ::
  "(string \<times> int) list \<Rightarrow> int \<Rightarrow> string \<Rightarrow> int \<Rightarrow> string \<Rightarrow> rng \<Rightarrow> py_error + (string \<times> int list)" where
  \<comment> \<open>The body of \<^verbatim>\<open>generate_test_sequence\<close>, statement by statement; the module's global
      key table is a parameter. \<^verbatim>\<open>range(1, n)\<close> has \<open>nat (n - 1)\<close> elements.\<close>
  "test_sequence_in key_table number_of_notes solfege_syllables octave_range key r =
     (case selected_midi_notes solfege_syllables of
        Inl e \<Rightarrow> Inl e
      | Inr selected \<Rightarrow>
      (case random_choice selected r of
        Inl e \<Rightarrow> Inl e
      | Inr (first_note, r1) \<Rightarrow>
      (case fill_sequence selected number_of_notes [first_note] r1 of
        Inl e \<Rightarrow> Inl e
      | Inr (midi_sequence, r2) \<Rightarrow>
      (let pre_octave_key_list = midi_sequence in
       case random_randint 1 octave_range r2 of
        Inl e \<Rightarrow> Inl e
      | Inr (first_octave, r3) \<Rightarrow>
      (case octave_loop (nat (number_of_notes - 1)) octave_range [first_octave] r3 of
        Inl e \<Rightarrow> Inl e
      | Inr (octave_adjustments, r4) \<Rightarrow>
      (let notes_plus_octave =
             map (\<lambda>(note, octave). note + (octave - 1) * 12) (zip midi_sequence octave_adjustments) in
       case dict_get key_table key of
        Inl e \<Rightarrow> Inl e
      | Inr key_adjustment \<Rightarrow>
      (let adjusted_notes = map (\<lambda>note. note + key_adjustment) notes_plus_octave;
           midi_test_notes = join ''_'' (map str_int adjusted_notes)
       in Inr (midi_test_notes, pre_octave_key_list))))))))"

definition generate_test_sequence ::
  "int \<Rightarrow> string \<Rightarrow> int \<Rightarrow> string \<Rightarrow> rng \<Rightarrow> py_error + (string \<times> int list)" where
  \<comment> \<open>\<^verbatim>\<open>backend.py\<close>\<close>
  "generate_test_sequence = test_sequence_in key_to_adjustment"

definition EarTraining_generate_test_sequence ::
  "int \<Rightarrow> string \<Rightarrow> int \<Rightarrow> string \<Rightarrow> rng \<Rightarrow> py_error + (string \<times> int list)" where
  \<comment> \<open>\<^verbatim>\<open>EarTraining.py\<close>\<close>
  "EarTraining_generate_test_sequence = test_sequence_in EarTraining_key_to_adjustment"

subsection \<open>The session\<close>

text \<open>
  The fields of \<^verbatim>\<open>EarTrainingGame\<close>. The clock is the real number that the float
  \<^verbatim>\<open>elapsed_time\<close> denotes. No arithmetic is done on it here: the floating-point addition
  of a tick is a parameter of the clock loop below. What \<^verbatim>\<open>print\<close> writes is a list of
  lines, a line being the values it formats.
\<close>

record game =
  user_guesses :: "string list"
  elapsed_time :: real
  running :: bool

datatype printed =
    StateLine real "string list"  \<comment> \<open>\<^verbatim>\<open>Elapsed Time: ... seconds, Guesses: ...\<close>\<close>
  | ErrorLine py_error            \<comment> \<open>\<^verbatim>\<open>An error occurred: ...\<close>\<close>

definition init_game :: game where
  \<comment> \<open>\<^verbatim>\<open>__init__\<close>\<close>
  "init_game = \<lparr> user_guesses = [], elapsed_time = 0, running = False \<rparr>"

definition notify_gui :: "game \<Rightarrow> printed list" where
  "notify_gui g = [StateLine (elapsed_time g) (user_guesses g)]"

definition add_user_guess :: "string \<Rightarrow> game \<Rightarrow> game \<times> printed list" where
  "add_user_guess solfege g =
     (let g' = g\<lparr> user_guesses := user_guesses g @ [solfege] \<rparr> in (g', notify_gui g'))"

definition remove_user_guess :: "game \<Rightarrow> game \<times> printed list" where
  "remove_user_guess g =
     (let g' = (if user_guesses g \<noteq> [] then g\<lparr> user_guesses := butlast (user_guesses g) \<rparr> else g)
      in (g', notify_gui g'))"





section \<open>Facts about list comprehensions that may raise\<close>

lemma map_result_all_ok:
  "(\<And>x. x \<in> set xs \<Longrightarrow> f x = Inr (g x)) \<Longrightarrow> map_result f xs = Inr (map g xs)"
  by (induction xs) simp_all

lemma map_result_raises:
  assumes "\<exists>x \<in> set xs. f x = Inl e"
    and "\<And>x. x \<in> set xs \<Longrightarrow> f x = Inl e \<or> (\<exists>y. f x = Inr y)"
  shows "map_result f xs = Inl e"
  using assms
proof (induction xs)
  case Nil
  then show ?case by simp
next
  case (Cons x xs)
  show ?case
  proof (cases "f x")
    case (Inl e')
    with Cons.prems(2) [of x] show ?thesis by simp
  next
    case (Inr y)
    with Cons.prems(1) have "\<exists>x \<in> set xs. f x = Inl e" by auto
    with Cons.IH Cons.prems(2) have "map_result f xs = Inl e" by simp
    with Inr show ?thesis by simp
  qed
qed

lemma map_result_length:
  "map_result f xs = Inr ys \<Longrightarrow> length ys = length xs"
  by (induction xs arbitrary: ys) (auto split: sum.splits)

lemma detailed_match_zip:
  assumes "length gt \<le> length us"
  shows "map (\<lambda>i. if gt ! i = us ! i then 1 else (0::int)) [0 ..< length gt]
         = map (\<lambda>(a, b). if a = b then 1 else 0) (zip gt us)"
  using assms by (intro nth_equalityI) simp_all

section \<open>Facts about the random source\<close>

lemma random_choice_returns:
  "xs \<noteq> [] \<Longrightarrow> \<exists>x r'. random_choice xs r = Inr (x, r') \<and> x \<in> set xs"
  by (simp add: random_choice_def)

lemma random_choice_Inr:
  "random_choice xs r = Inr (x, r') \<Longrightarrow> x \<in> set xs"
  by (auto simp: random_choice_def split: if_splits)

lemma random_choice_empty: "random_choice [] r = Inl IndexError"
  by (simp add: random_choice_def)

lemma random_randint_Inr:
  "random_randint a b r = Inr (v, r') \<Longrightarrow> a \<le> v \<and> v \<le> b"
proof -
  assume h: "random_randint a b r = Inr (v, r')"
  then have ab: "a \<le> b" and v: "v = a + int (r 0 mod nat (b - a + 1))"
    by (auto simp: random_randint_def split: if_splits)
  from ab have "r 0 mod nat (b - a + 1) < nat (b - a + 1)" by simp
  with ab v show ?thesis by linarith
qed

lemma random_randint_returns:
  "a \<le> b \<Longrightarrow> \<exists>v r'. random_randint a b r = Inr (v, r')"
  by (simp add: random_randint_def)

section \<open>Facts about the two loops\<close>

lemma other_notes_nonempty:
  assumes "2 \<le> card (set sel)"
  shows "[note \<leftarrow> sel. note \<noteq> x] \<noteq> []"
proof
  assume "[note \<leftarrow> sel. note \<noteq> x] = []"
  then have "set sel \<subseteq> {x}" by (auto simp: filter_empty_conv)
  then have "card (set sel) \<le> card {x}" by (intro card_mono) simp_all
  with assms show False by simp
qed

lemma fill_sequence_returns:
  assumes "2 \<le> card (set sel)"
  shows "\<exists>ms' r'. fill_sequence sel n ms r = Inr (ms', r')"
  using assms
proof (induction sel n ms r rule: fill_sequence.induct)
  case (1 sel n ms r)
  show ?case
  proof (cases "int (length ms) < n")
    case False
    then have "fill_sequence sel n ms r = Inr (ms, r)"
      by (subst fill_sequence.simps) simp
    then show ?thesis by blast
  next
    case True
    have ne: "[note \<leftarrow> sel. note \<noteq> last ms] \<noteq> []"
      by (rule other_notes_nonempty [OF "1.prems"])
    from random_choice_returns [OF ne, of r]
    obtain x r1 where c: "random_choice [note \<leftarrow> sel. note \<noteq> last ms] r = Inr (x, r1)"
      by blast
    from "1.IH" [OF True c refl "1.prems"] obtain ms' r' where
      rec: "fill_sequence sel n (ms @ [x]) r1 = Inr (ms', r')" by blast
    from True c rec have "fill_sequence sel n ms r = Inr (ms', r')"
      by (subst fill_sequence.simps) simp
    then show ?thesis by blast
  qed
qed

lemma fill_sequence_Inr:
  assumes "fill_sequence sel n ms r = Inr (ms', r')" and "ms \<noteq> []"
  shows "length ms' = max (length ms) (nat n) \<and>
         (\<exists>ext. ms' = ms @ ext \<and> set ext \<subseteq> set sel) \<and>
         (distinct_adj ms \<longrightarrow> distinct_adj ms')"
  using assms
proof (induction sel n ms r rule: fill_sequence.induct)
  case (1 sel n ms r)
  show ?case
  proof (cases "int (length ms) < n")
    case False
    with "1.prems" have "ms' = ms" by (simp add: fill_sequence.simps)
    with False show ?thesis by auto
  next
    case True
    with "1.prems"(1) obtain x r1 where
      c: "random_choice [note \<leftarrow> sel. note \<noteq> last ms] r = Inr (x, r1)" and
      rec: "fill_sequence sel n (ms @ [x]) r1 = Inr (ms', r')"
      by (subst (asm) fill_sequence.simps) (auto split: sum.splits)
    from random_choice_Inr [OF c] have x: "x \<in> set sel" "x \<noteq> last ms" by auto
    from "1.IH" [OF True c refl rec] have
      len: "length ms' = max (length (ms @ [x])) (nat n)" and
      ext: "\<exists>ext. ms' = (ms @ [x]) @ ext \<and> set ext \<subseteq> set sel" and
      adj: "distinct_adj (ms @ [x]) \<longrightarrow> distinct_adj ms'"
      by simp_all
    from len True have "length ms' = max (length ms) (nat n)" by simp
    moreover have "\<exists>ext. ms' = ms @ ext \<and> set ext \<subseteq> set sel"
    proof -
      from ext obtain ext where e: "ms' = (ms @ [x]) @ ext" "set ext \<subseteq> set sel" by blast
      with x(1) have "ms' = ms @ (x # ext) \<and> set (x # ext) \<subseteq> set sel" by simp
      then show ?thesis by blast
    qed
    moreover from adj x(2) "1.prems"(2) have "distinct_adj ms \<longrightarrow> distinct_adj ms'"
      by (simp add: distinct_adj_append_iff)
    ultimately show ?thesis by blast
  qed
qed

lemma fill_sequence_stuck:
  assumes "set sel \<subseteq> {last ms}" and "int (length ms) < n"
  shows "fill_sequence sel n ms r = Inl IndexError"
proof -
  from assms(1) have "[note \<leftarrow> sel. note \<noteq> last ms] = []"
    by (auto simp: filter_empty_conv)
  with assms(2) show ?thesis
    by (subst fill_sequence.simps) (simp add: random_choice_empty)
qed

lemma other_octaves_range:
  "set (other_octaves octave_range prev) \<subseteq> {1 .. octave_range}"
  by (auto simp: other_octaves_def)

lemma other_octaves_nonempty:
  assumes "2 \<le> octave_range"
  shows "other_octaves octave_range prev \<noteq> []"
proof (cases "prev = 1")
  case True
  with assms have "2 \<in> set (other_octaves octave_range prev)"
    by (simp add: other_octaves_def)
  then show ?thesis by auto
next
  case False
  with assms have "1 \<in> set (other_octaves octave_range prev)"
    by (simp add: other_octaves_def)
  then show ?thesis by auto
qed

lemma octave_loop_Inr:
  assumes "octave_loop k octave_range adj r = Inr (adj', r')" and "adj \<noteq> []"
  shows "length adj' = length adj + k \<and> set adj' \<subseteq> set adj \<union> {1 .. octave_range}"
  using assms
proof (induction k arbitrary: adj r)
  case 0
  then show ?case by auto
next
  case (Suc k)
  from Suc.prems(1) obtain next_octave r1 where
    rec: "octave_loop k octave_range (adj @ [next_octave]) r1 = Inr (adj', r')" and
    nxt: "next_octave = last adj \<or> next_octave \<in> set (other_octaves octave_range (last adj))"
    by (auto split: if_splits sum.splits prod.splits dest: random_choice_Inr)
  from Suc.IH [OF rec] have
    "length adj' = length (adj @ [next_octave]) + k" and
    "set adj' \<subseteq> set (adj @ [next_octave]) \<union> {1 .. octave_range}" by simp_all
  moreover from nxt Suc.prems(2) other_octaves_range
  have "next_octave \<in> set adj \<union> {1 .. octave_range}" by (auto simp del: atLeastAtMost_iff)
  ultimately show ?case by auto
qed

lemma octave_loop_returns:
  assumes "2 \<le> octave_range"
  shows "\<exists>adj' r'. octave_loop k octave_range adj r = Inr (adj', r')"
proof (induction k arbitrary: adj r)
  case 0
  show ?case by simp
next
  case (Suc k)
  have ch: "\<exists>x r1. random_choice (other_octaves octave_range (last adj)) rr = Inr (x, r1)" for rr
    using other_octaves_nonempty [OF assms] random_choice_returns [of _ rr] by blast
  show ?case
  proof (cases "last adj = 1")
    case True
    obtain x r1 where rr: "random_random r = (x, r1)" by (cases "random_random r")
    show ?thesis
    proof (cases "below_three_quarters x")
      case below: True
      from Suc.IH [of "adj @ [1]" r1] obtain adj' r' where
        "octave_loop k octave_range (adj @ [1]) r1 = Inr (adj', r')" by blast
      with True rr below have "octave_loop (Suc k) octave_range adj r = Inr (adj', r')"
        by simp
      then show ?thesis by blast
    next
      case above: False
      from ch [of r1] obtain y r2 where
        c: "random_choice (other_octaves octave_range (last adj)) r1 = Inr (y, r2)" by blast
      from Suc.IH [of "adj @ [y]" r2] obtain adj' r' where
        "octave_loop k octave_range (adj @ [y]) r2 = Inr (adj', r')" by blast
      with True rr above c have "octave_loop (Suc k) octave_range adj r = Inr (adj', r')"
        by simp
      then show ?thesis by blast
    qed
  next
    case False
    from ch [of r] obtain y r1 where
      c: "random_choice (other_octaves octave_range (last adj)) r = Inr (y, r1)" by blast
    from Suc.IH [of "adj @ [y]" r1] obtain adj' r' where
      "octave_loop k octave_range (adj @ [y]) r1 = Inr (adj', r')" by blast
    with False c have "octave_loop (Suc k) octave_range adj r = Inr (adj', r')"
      by simp
    then show ?thesis by blast
  qed
qed

section \<open>Facts about the generator\<close>

lemma test_sequence_in_Inr:
  assumes "test_sequence_in key_table n s octave_range key r = Inr (display, gt)"
  shows "\<exists>sel octaves a.
           selected_midi_notes s = Inr sel \<and>
           map_of key_table key = Some a \<and>
           length gt = max 1 (nat n) \<and> set gt \<subseteq> set sel \<and> distinct_adj gt \<and>
           length octaves = length gt \<and> set octaves \<subseteq> {1 .. octave_range} \<and>
           display = join ''_'' (map str_int
                       (map (\<lambda>(note, octave). note + (octave - 1) * 12 + a) (zip gt octaves)))"
proof -
  from assms obtain sel first_note r1 r2 first_octave r3 octaves r4 a where
    sel: "selected_midi_notes s = Inr sel" and
    first: "random_choice sel r = Inr (first_note, r1)" and
    fill: "fill_sequence sel n [first_note] r1 = Inr (gt, r2)" and
    rint: "random_randint 1 octave_range r2 = Inr (first_octave, r3)" and
    loop: "octave_loop (nat (n - 1)) octave_range [first_octave] r3 = Inr (octaves, r4)" and
    key: "dict_get key_table key = Inr a" and
    disp: "display = join ''_'' (map str_int (map (\<lambda>note. note + a)
             (map (\<lambda>(note, octave). note + (octave - 1) * 12) (zip gt octaves))))"
    unfolding test_sequence_in_def Let_def
    by (auto split: sum.splits prod.splits)
  from key have a: "map_of key_table key = Some a"
    by (simp add: dict_get_def split: option.splits)
  from fill_sequence_Inr [OF fill] obtain ext where
    len: "length gt = max 1 (nat n)" and ext: "gt = [first_note] @ ext" "set ext \<subseteq> set sel" and
    adj: "distinct_adj gt"
    by auto
  from random_choice_Inr [OF first] ext have mem: "set gt \<subseteq> set sel" by auto
  from octave_loop_Inr [OF loop] random_randint_Inr [OF rint] have
    olen: "length octaves = 1 + nat (n - 1)" and orange: "set octaves \<subseteq> {1 .. octave_range}"
    by auto
  from olen len have olen': "length octaves = length gt" by (simp add: max_def) linarith
  have meq: "map (\<lambda>note. note + a) (map (\<lambda>(note, octave). note + (octave - 1) * 12) (zip gt octaves))
        = map (\<lambda>(note, octave). note + (octave - 1) * 12 + a) (zip gt octaves)"
    by (simp add: case_prod_beta)
  have "display = join ''_'' (map str_int
                    (map (\<lambda>(note, octave). note + (octave - 1) * 12 + a) (zip gt octaves)))"
    unfolding disp meq ..
  with sel a len mem adj olen' orange show ?thesis by blast
qed

lemma test_sequence_in_returns:
  assumes sel: "selected_midi_notes s = Inr sel" "sel \<noteq> []"
    and pitches: "n \<le> 1 \<or> 2 \<le> card (set sel)"
    and range: "1 \<le> octave_range" "n \<le> 1 \<or> 2 \<le> octave_range"
    and key: "map_of key_table key = Some a"
  shows "\<exists>display gt. test_sequence_in key_table n s octave_range key r = Inr (display, gt)"
proof -
  from random_choice_returns [OF sel(2), of r] obtain first_note r1 where
    first: "random_choice sel r = Inr (first_note, r1)" by blast
  have "\<exists>ms r2. fill_sequence sel n [first_note] r1 = Inr (ms, r2)"
  proof (cases "n \<le> 1")
    case True
    then have "fill_sequence sel n [first_note] r1 = Inr ([first_note], r1)"
      by (subst fill_sequence.simps) simp
    then show ?thesis by blast
  next
    case False
    with pitches show ?thesis by (intro fill_sequence_returns) simp
  qed
  then obtain ms r2 where fill: "fill_sequence sel n [first_note] r1 = Inr (ms, r2)" by blast
  from random_randint_returns [OF range(1), of r2] obtain first_octave r3 where
    rint: "random_randint 1 octave_range r2 = Inr (first_octave, r3)" by blast
  have "\<exists>octaves r4. octave_loop (nat (n - 1)) octave_range [first_octave] r3 = Inr (octaves, r4)"
  proof (cases "n \<le> 1")
    case True
    then show ?thesis by simp
  next
    case False
    with range(2) show ?thesis by (intro octave_loop_returns) simp
  qed
  then obtain octaves r4 where
    loop: "octave_loop (nat (n - 1)) octave_range [first_octave] r3 = Inr (octaves, r4)" by blast
  from key have "dict_get key_table key = Inr a" by (simp add: dict_get_def)
  with sel(1) first fill rint loop show ?thesis
    by (simp add: test_sequence_in_def)
qed

lemma test_sequence_in_unsatisfiable:
  assumes n: "1 < n"
    and sel: "selected_midi_notes s = Inr sel"
    and pitches: "card (set sel) < 2"
  shows "test_sequence_in key_table n s octave_range key r = Inl IndexError"
proof (cases "sel = []")
  case True
  with sel show ?thesis by (simp add: test_sequence_in_def random_choice_empty)
next
  case False
  from random_choice_returns [OF False, of r] obtain first_note r1 where
    first: "random_choice sel r = Inr (first_note, r1)" and mem: "first_note \<in> set sel" by blast
  have "set sel \<subseteq> {first_note}"
  proof (rule ccontr)
    assume "\<not> set sel \<subseteq> {first_note}"
    then obtain y where y: "y \<in> set sel" "y \<noteq> first_note" by auto
    with mem have "{first_note, y} \<subseteq> set sel" by simp
    then have "card {first_note, y} \<le> card (set sel)" by (intro card_mono) simp_all
    with y(2) pitches show False by simp
  qed
  with n have "fill_sequence sel n [first_note] r1 = Inl IndexError"
    by (intro fill_sequence_stuck) simp_all
  with sel first show ?thesis by (simp add: test_sequence_in_def)
qed

section \<open>Facts about the clock\<close>


section \<open>Evaluation on concrete inputs\<close>

lemma octave_loop_step:
  "0 < k \<Longrightarrow>
   octave_loop k octave_range octave_adjustments r =
     (if last octave_adjustments = 1 then
        (case random_random r of
           (x, r1) \<Rightarrow>
             if below_three_quarters x
             then octave_loop (k - 1) octave_range (octave_adjustments @ [1]) r1
             else (case random_choice (other_octaves octave_range (last octave_adjustments)) r1 of
                     Inl e \<Rightarrow> Inl e
                   | Inr (next_octave, r2) \<Rightarrow>
                       octave_loop (k - 1) octave_range (octave_adjustments @ [next_octave]) r2))
      else
        (case random_choice (other_octaves octave_range (last octave_adjustments)) r of
           Inl e \<Rightarrow> Inl e
         | Inr (next_octave, r1) \<Rightarrow>
             octave_loop (k - 1) octave_range (octave_adjustments @ [next_octave]) r1))"
proof -
  assume "0 < k"
  then obtain m where k: "k = Suc m" by (cases k) auto
  show ?thesis unfolding k diff_Suc_1 octave_loop.simps(2) ..
qed

lemmas generator_eval =
  test_sequence_in_def selected_midi_notes_def split_def is_space_def
  dict_get_def solfege_to_midi_def
  random_choice_def random_randint_def random_random_def rng_rest_def below_three_quarters_def
  fill_sequence.simps octave_loop_step other_octaves_def upto.simps str_int_def str_nat.simps digit_char_def

lemma zip_as_indices:
  assumes "length ys = length xs"
  shows "map (\<lambda>(x, y). f x y) (zip xs ys) = map (\<lambda>i. f (xs ! i) (ys ! i)) [0 ..< length xs]"
  using assms by (intro nth_equalityI) simp_all

section \<open>Scoring\<close>

text \<open>
  C2, as amended. \<^verbatim>\<open>validate_user_input\<close> has no length check. On sequences of unequal
  length it raises IndexError when the guesses are fewer than the ground truth; when they
  are more, it returns overall 0 and the per-note comparison of the ground truth with
  the first guesses, a list as long as the ground truth.
\<close>

theorem validate_user_input_unequal_lengths:
  assumes "length gt \<noteq> length us"
  shows "validate_user_input gt us =
           (if length us < length gt then Inl IndexError
            else Inr (0, map (\<lambda>(a, b). if a = b then 1 else 0) (zip gt us)))"
proof (cases "length us < length gt")
  case True
  have "map_result (match_at gt us) [0 ..< length gt] = Inl IndexError"
  proof (rule map_result_raises)
    from True show "\<exists>i \<in> set [0 ..< length gt]. match_at gt us i = Inl IndexError"
      by (intro bexI [of _ "length us"]) (simp_all add: match_at_def)
  next
    fix i
    show "match_at gt us i = Inl IndexError \<or> (\<exists>y. match_at gt us i = Inr y)"
      by (simp add: match_at_def)
  qed
  with True show ?thesis by (simp add: validate_user_input_def)
next
  case False
  with assms have le: "length gt \<le> length us" and ne: "gt \<noteq> us" by auto
  have "map_result (match_at gt us) [0 ..< length gt]
        = Inr (map (\<lambda>i. if gt ! i = us ! i then 1 else 0) [0 ..< length gt])"
    using le by (intro map_result_all_ok) (simp add: match_at_def)
  with False ne detailed_match_zip [OF le] show ?thesis
    by (simp add: validate_user_input_def)
qed

theorem validate_user_input_unequal_lengths_witness:
  "length [60, 62 :: int] \<noteq> length [60 :: int] \<and>
   validate_user_input [60, 62 :: int] [60] = Inl IndexError \<and>
   length [60 :: int] \<noteq> length [60, 64, 62 :: int] \<and>
   validate_user_input [60 :: int] [60, 64, 62] = Inr (0, [1])"
  using validate_user_input_unequal_lengths [of "[60, 62 :: int]" "[60]"]
        validate_user_input_unequal_lengths [of "[60 :: int]" "[60, 64, 62]"]
  by simp

text \<open>
  C2, as stated, fails: with one note of ground truth and two guesses the function
  returns, with a per-note list of one element.
\<close>

theorem validate_user_input_truncates:
  "validate_user_input [60 :: int] [60, 62] = Inr (0, [1])"
  by (simp add: validate_user_input_def match_at_def)

text \<open>
  A sequence scored against itself matches everywhere: overall 1 and a 1 for every note.
\<close>

theorem validate_user_input_self:
  "validate_user_input xs xs = Inr (1, replicate (length xs) 1)"
proof -
  have "map_result (match_at xs xs) [0 ..< length xs]
        = Inr (map (\<lambda>i. 1) [0 ..< length xs])"
    by (intro map_result_all_ok) (simp add: match_at_def)
  moreover have "map (\<lambda>i. 1 :: int) [0 ..< length xs] = replicate (length xs) 1"
    by (simp add: map_replicate_const)
  ultimately show ?thesis by (simp add: validate_user_input_def)
qed

section \<open>The key table\<close>

text \<open>
  C3. Enharmonic spellings of a key should have offsets equal modulo 12. Both tables give
  \<^verbatim>\<open>D#\<close> the offset 2 of \<^verbatim>\<open>D\<close> and \<^verbatim>\<open>Eb\<close> the offset 3, which are different pitch classes.
  Of the five pairs it is the only one that differs in \<^verbatim>\<open>EarTraining.py\<close>; in \<^verbatim>\<open>backend.py\<close>
  the key \<^verbatim>\<open>A#\<close> is missing as well, written \<^verbatim>\<open>A3\<close>.
\<close>

theorem key_to_adjustment_D_sharp_E_flat:
  "map_of key_to_adjustment ''D#'' = Some 2 \<and>
   map_of key_to_adjustment ''Eb'' = Some 3 \<and>
   \<not> same_pitch_class key_to_adjustment ''D#'' ''Eb'' \<and>
   map_of EarTraining_key_to_adjustment ''D#'' = Some 2 \<and>
   map_of EarTraining_key_to_adjustment ''Eb'' = Some 3 \<and>
   \<not> same_pitch_class EarTraining_key_to_adjustment ''D#'' ''Eb'' \<and>
   map (\<lambda>(sharp, flat). same_pitch_class EarTraining_key_to_adjustment sharp flat) enharmonic_pairs
     = [True, False, True, True, True] \<and>
   map (\<lambda>(sharp, flat). same_pitch_class key_to_adjustment sharp flat) enharmonic_pairs
     = [True, False, True, True, False]"
  by (simp add: key_to_adjustment_def EarTraining_key_to_adjustment_def same_pitch_class_def
      enharmonic_pairs_def)

section \<open>The reference cadence\<close>

text \<open>
  C8. For every key of the table, with offset \<open>a\<close>, and with \<open>r = 60 + a\<close> where 60 is the
  pitch of \<^verbatim>\<open>do\<close>, \<^verbatim>\<open>generate_reference_cadence\<close> returns the tonic \<open>(r, r + 4, r + 7)\<close> and
  the dominant \<open>(r - 5, r - 1, r + 2)\<close>; for the key \<^verbatim>\<open>D\<close> these are \<open>(62, 66, 69)\<close> and
  \<open>(57, 61, 64)\<close>. The function reads no random source.
\<close>

theorem generate_reference_cadence_triads:
  assumes "map_of key_to_adjustment key = Some a"
  shows "map_of solfege_to_midi ''do'' = Some 60 \<and>
         generate_reference_cadence key =
           Inr \<lparr> dominant = (60 + a - 5, 60 + a - 1, 60 + a + 2),
                 tonic = (60 + a, 60 + a + 4, 60 + a + 7) \<rparr> \<and>
         generate_reference_cadence ''D'' =
           Inr \<lparr> dominant = (57, 61, 64), tonic = (62, 66, 69) \<rparr>"
proof -
  have do_note: "map_of solfege_to_midi ''do'' = Some 60"
    by (simp add: solfege_to_midi_def)
  have "map_of key_to_adjustment ''D'' = Some 2"
    by (simp add: key_to_adjustment_def)
  with do_note assms show ?thesis
    by (simp add: generate_reference_cadence_def reference_cadence_in_def dict_get_def)
qed

theorem generate_reference_cadence_triads_witness:
  "map_of key_to_adjustment ''Ab'' = Some (- 4) \<and>
   generate_reference_cadence ''Ab'' =
     Inr \<lparr> dominant = (51, 55, 58), tonic = (56, 60, 63) \<rparr>"
proof -
  have h: "map_of key_to_adjustment ''Ab'' = Some (- 4)"
    by (simp add: key_to_adjustment_def)
  from generate_reference_cadence_triads [OF h] h show ?thesis by simp
qed

section \<open>The sequence generator\<close>

text \<open>
  C1. With \<^verbatim>\<open>octave_range = 1\<close>, key \<^verbatim>\<open>C\<close> and two notes asked for, the generator should
  return whatever the random source. It raises IndexError as soon as a \<^verbatim>\<open>random.random()\<close>
  of the octave loop is not below 0.75: the list of the other octaves is empty and
  \<^verbatim>\<open>random.choice\<close> is called on it. Here every draw is the largest one.
\<close>

theorem generate_test_sequence_one_octave_raises:
  "generate_test_sequence 2 ''do re'' 1 ''C'' (\<lambda>i. 2 ^ 53 - 1) = Inl IndexError \<and>
   EarTraining_generate_test_sequence 2 ''do re'' 1 ''C'' (\<lambda>i. 2 ^ 53 - 1) = Inl IndexError"
  by (simp add: generate_test_sequence_def EarTraining_generate_test_sequence_def generator_eval)

text \<open>
  C5. When more than one note is asked for and the syllables map to fewer than two distinct
  pitches, the call raises IndexError (from \<^verbatim>\<open>random.choice\<close> on an empty list), whatever
  the octave range, the key and the random source. The model is a total function, so the
  call does not run forever either.
\<close>

theorem generate_test_sequence_too_few_pitches:
  assumes "1 < n" and "selected_midi_notes s = Inr sel" and "card (set sel) < 2"
  shows "generate_test_sequence n s octave_range key r = Inl IndexError"
  unfolding generate_test_sequence_def
  using assms by (rule test_sequence_in_unsatisfiable)

theorem generate_test_sequence_too_few_pitches_witness:
  "(1 :: int) < 3 \<and> selected_midi_notes ''do do'' = Inr [60, 60] \<and> card (set [60, 60 :: int]) < 2 \<and>
   generate_test_sequence 3 ''do do'' 2 ''C'' (\<lambda>i. i) = Inl IndexError"
proof -
  have h1: "(1 :: int) < 3" by simp
  have h2: "selected_midi_notes ''do do'' = Inr [60, 60]"
    by (simp add: generator_eval)
  have h3: "card (set [60, 60 :: int]) < 2" by simp
  from h1 h2 h3 generate_test_sequence_too_few_pitches [OF h1 h2 h3, of 2 "''C''" "\<lambda>i. i"]
  show ?thesis by (simp only: simp_thms)
qed

text \<open>
  C6. With three notes, three syllables, \<^verbatim>\<open>octave_range = 1\<close> and key \<^verbatim>\<open>C\<close> (the values of
  \<^verbatim>\<open>settings_medium\<close>), and a random source whose second \<^verbatim>\<open>random.random()\<close> is exactly 0.75,
  the generator raises IndexError instead of returning two sequences of three notes.
\<close>

theorem generate_test_sequence_medium_raises:
  "selected_midi_notes ''do re mi'' = Inr [60, 62, 64] \<and>
   generate_test_sequence 3 ''do re mi'' 1 ''C'' (\<lambda>i. if i = 5 then 3 * 2 ^ 51 else 0)
     = Inl IndexError"
  by (simp add: generate_test_sequence_def generator_eval)

text \<open>
  C7. Whenever \<^verbatim>\<open>generate_test_sequence\<close> returns, the key is a key of the table, with offset
  \<open>a\<close>, and there is a list of octave bands, one per note and each in \<open>[1, octave_range]\<close>,
  such that the text returned is the notes \<open>gt[i] + (octaves[i] - 1) * 12 + a\<close> in decimal,
  joined by underscores.
\<close>

theorem generate_test_sequence_display:
  assumes "generate_test_sequence n s octave_range key r = Inr (display, gt)"
  shows "\<exists>octaves a.
           map_of key_to_adjustment key = Some a \<and> length octaves = length gt \<and>
           (\<forall>i < length gt. 1 \<le> octaves ! i \<and> octaves ! i \<le> octave_range) \<and>
           display = join ''_'' (map str_int
                       (map (\<lambda>i. gt ! i + (octaves ! i - 1) * 12 + a) [0 ..< length gt]))"
proof -
  from test_sequence_in_Inr [OF assms [unfolded generate_test_sequence_def]]
  obtain octaves a where
    a: "map_of key_to_adjustment key = Some a" and
    len: "length octaves = length gt" and
    rng: "set octaves \<subseteq> {1 .. octave_range}" and
    disp: "display = join ''_'' (map str_int
             (map (\<lambda>(note, octave). note + (octave - 1) * 12 + a) (zip gt octaves)))"
    by blast
  have "\<forall>i < length gt. 1 \<le> octaves ! i \<and> octaves ! i \<le> octave_range"
  proof (intro allI impI)
    fix i assume "i < length gt"
    with len have "octaves ! i \<in> set octaves" by simp
    with rng show "1 \<le> octaves ! i \<and> octaves ! i \<le> octave_range" by auto
  qed
  moreover have "display = join ''_'' (map str_int
                   (map (\<lambda>i. gt ! i + (octaves ! i - 1) * 12 + a) [0 ..< length gt]))"
    unfolding disp zip_as_indices [OF len] ..
  ultimately show ?thesis using a len by blast
qed

theorem generate_test_sequence_display_witness:
  "generate_test_sequence 3 ''do re mi'' 2 ''D'' (\<lambda>i. i) = Inr (''74_66_62'', [60, 64, 60]) \<and>
   (\<exists>octaves a.
      map_of key_to_adjustment ''D'' = Some a \<and> length octaves = length [60, 64, 60 :: int] \<and>
      (\<forall>i < length [60, 64, 60 :: int]. 1 \<le> octaves ! i \<and> octaves ! i \<le> 2) \<and>
      ''74_66_62'' = join ''_'' (map str_int
         (map (\<lambda>i. [60, 64, 60] ! i + (octaves ! i - 1) * 12 + a) [0 ..< length [60, 64, 60 :: int]])))"
proof -
  have h: "generate_test_sequence 3 ''do re mi'' 2 ''D'' (\<lambda>i. i) = Inr (''74_66_62'', [60, 64, 60])"
    by (simp add: generate_test_sequence_def key_to_adjustment_def generator_eval)
  from h generate_test_sequence_display [OF h] show ?thesis by (rule conjI)
qed

text \<open>
  C10. When at most one note is asked for (zero and negative counts included), the syllables
  are valid and not empty, the octave range is at least 1 and the key is valid, the call
  returns one note of the allowed pitches as ground truth and one note as display, that
  note moved by its octave band and the key: both sequences have length 1, not the count.
\<close>

theorem generate_test_sequence_single_note:
  assumes "n \<le> 1" and "selected_midi_notes s = Inr sel" and "sel \<noteq> []"
    and "1 \<le> octave_range" and "map_of key_to_adjustment key = Some a"
  shows "\<exists>note octave.
           note \<in> set sel \<and> 1 \<le> octave \<and> octave \<le> octave_range \<and>
           generate_test_sequence n s octave_range key r =
             Inr (join ''_'' (map str_int [note + (octave - 1) * 12 + a]), [note])"
proof -
  from test_sequence_in_returns [of s sel n octave_range key_to_adjustment key a r] assms
  obtain display gt where
    ret: "test_sequence_in key_to_adjustment n s octave_range key r = Inr (display, gt)"
    by blast
  from test_sequence_in_Inr [OF ret] assms(2,5) obtain octaves where
    len: "length gt = max 1 (nat n)" and mem: "set gt \<subseteq> set sel" and
    olen: "length octaves = length gt" and orng: "set octaves \<subseteq> {1 .. octave_range}" and
    disp: "display = join ''_'' (map str_int
             (map (\<lambda>(note, octave). note + (octave - 1) * 12 + a) (zip gt octaves)))"
    by auto
  from len assms(1) have "length gt = 1" by simp
  then obtain x where gt: "gt = [x]" by (cases gt) simp_all
  from olen gt obtain y where oc: "octaves = [y]" by (cases octaves) simp_all
  from mem gt have "x \<in> set sel" by simp
  moreover from orng oc have "1 \<le> y \<and> y \<le> octave_range" by simp
  moreover from ret disp gt oc have
    "generate_test_sequence n s octave_range key r =
       Inr (join ''_'' (map str_int [x + (y - 1) * 12 + a]), [x])"
    by (simp add: generate_test_sequence_def)
  ultimately show ?thesis by blast
qed

theorem generate_test_sequence_single_note_witness:
  "(- 2 :: int) \<le> 1 \<and> selected_midi_notes ''sol'' = Inr [67] \<and> [67 :: int] \<noteq> [] \<and> (1 :: int) \<le> 1 \<and>
   map_of key_to_adjustment ''Gb'' = Some (- 6) \<and>
   (\<exists>note octave.
      note \<in> set [67] \<and> 1 \<le> octave \<and> octave \<le> 1 \<and>
      generate_test_sequence (- 2) ''sol'' 1 ''Gb'' (\<lambda>i. 5) =
        Inr (join ''_'' (map str_int [note + (octave - 1) * 12 + (- 6)]), [note]))"
proof -
  have h1: "(- 2 :: int) \<le> 1" by simp
  have h2: "selected_midi_notes ''sol'' = Inr [67]" by (simp add: generator_eval)
  have h3: "[67 :: int] \<noteq> []" by simp
  have h4: "(1 :: int) \<le> 1" by simp
  have h5: "map_of key_to_adjustment ''Gb'' = Some (- 6)" by (simp add: key_to_adjustment_def)
  from h1 h2 h3 h4 h5 generate_test_sequence_single_note [OF h1 h2 h3 h4 h5, of "\<lambda>i. 5"]
  show ?thesis by (simp only: simp_thms)
qed

text \<open>
  With at least two octave bands the generator always returns. For a count of at least 1,
  valid syllables with at least two distinct pitches, \<^verbatim>\<open>octave_range\<close> at least 2 and a valid
  key, and every random source, the call returns a ground truth and a display of exactly
  \<open>count\<close> notes each, the ground truth drawn from the allowed pitches with no two
  adjacent notes equal.
\<close>

theorem generate_test_sequence_two_octaves:
  assumes "1 \<le> n" and "selected_midi_notes s = Inr sel" and "2 \<le> card (set sel)"
    and "2 \<le> octave_range" and "map_of key_to_adjustment key = Some a"
  shows "\<exists>display gt adjusted.
           generate_test_sequence n s octave_range key r = Inr (display, gt) \<and>
           display = join ''_'' (map str_int adjusted) \<and>
           length gt = nat n \<and> length adjusted = nat n \<and> set gt \<subseteq> set sel \<and>
           (\<forall>i. Suc i < length gt \<longrightarrow> gt ! i \<noteq> gt ! Suc i)"
proof -
  from assms(3) have ne: "sel \<noteq> []" by auto
  from assms(4) have r1: "1 \<le> octave_range" by simp
  from test_sequence_in_returns [OF assms(2) ne _ r1 _ assms(5), of n r] assms(3,4)
  obtain display gt where
    ret: "test_sequence_in key_to_adjustment n s octave_range key r = Inr (display, gt)"
    by blast
  from test_sequence_in_Inr [OF ret] assms(2,5) obtain octaves where
    len: "length gt = max 1 (nat n)" and mem: "set gt \<subseteq> set sel" and adj: "distinct_adj gt" and
    olen: "length octaves = length gt" and
    disp: "display = join ''_'' (map str_int
             (map (\<lambda>(note, octave). note + (octave - 1) * 12 + a) (zip gt octaves)))"
    by auto
  define adjusted where
    "adjusted = map (\<lambda>(note, octave). note + (octave - 1) * 12 + a) (zip gt octaves)"
  from len assms(1) have l1: "length gt = nat n" by simp
  with olen have l2: "length adjusted = nat n" by (simp add: adjusted_def)
  from adj have "\<forall>i. Suc i < length gt \<longrightarrow> gt ! i \<noteq> gt ! Suc i"
    by (simp add: distinct_adj_conv_nth)
  with ret disp l1 l2 mem show ?thesis
    unfolding generate_test_sequence_def adjusted_def by blast
qed

theorem generate_test_sequence_two_octaves_witness:
  "(1 :: int) \<le> 3 \<and> selected_midi_notes ''do re mi'' = Inr [60, 62, 64] \<and>
   2 \<le> card (set [60, 62, 64 :: int]) \<and> (2 :: int) \<le> 2 \<and>
   map_of key_to_adjustment ''D'' = Some 2 \<and>
   (\<exists>display gt adjusted.
      generate_test_sequence 3 ''do re mi'' 2 ''D'' (\<lambda>i. i) = Inr (display, gt) \<and>
      display = join ''_'' (map str_int adjusted) \<and>
      length gt = nat 3 \<and> length adjusted = nat 3 \<and> set gt \<subseteq> set [60, 62, 64] \<and>
      (\<forall>i. Suc i < length gt \<longrightarrow> gt ! i \<noteq> gt ! Suc i))"
proof -
  have h1: "(1 :: int) \<le> 3" by simp
  have h2: "selected_midi_notes ''do re mi'' = Inr [60, 62, 64]" by (simp add: generator_eval)
  have h3: "2 \<le> card (set [60, 62, 64 :: int])" by simp
  have h4: "(2 :: int) \<le> 2" by simp
  have h5: "map_of key_to_adjustment ''D'' = Some 2" by (simp add: key_to_adjustment_def)
  from h1 h2 h3 h4 h5 generate_test_sequence_two_octaves [OF h1 h2 h3 h4 h5, of "\<lambda>i. i"]
  show ?thesis by (simp only: simp_thms)
qed

text \<open>
  With one octave band and the key \<^verbatim>\<open>C\<close>, whenever the generator returns, the display is the
  ground truth itself, written in decimal and joined by underscores; the ground truth is
  drawn from the allowed pitches and has no two adjacent notes equal.
\<close>

theorem generate_test_sequence_one_octave_C:
  assumes "generate_test_sequence n s 1 ''C'' r = Inr (display, gt)"
  shows "display = join ''_'' (map str_int gt) \<and>
         (\<exists>sel. selected_midi_notes s = Inr sel \<and> set gt \<subseteq> set sel) \<and>
         (\<forall>i. Suc i < length gt \<longrightarrow> gt ! i \<noteq> gt ! Suc i)"
proof -
  from test_sequence_in_Inr [OF assms [unfolded generate_test_sequence_def]]
  obtain sel octaves a where
    sel: "selected_midi_notes s = Inr sel" "set gt \<subseteq> set sel" and
    a: "map_of key_to_adjustment ''C'' = Some a" and
    adj: "distinct_adj gt" and
    len: "length octaves = length gt" and rng: "set octaves \<subseteq> {1 .. 1}" and
    disp: "display = join ''_'' (map str_int
             (map (\<lambda>(note, octave). note + (octave - 1) * 12 + a) (zip gt octaves)))"
    by blast
  from a have a0: "a = 0" by (simp add: key_to_adjustment_def)
  have same: "map (\<lambda>(note, octave). note + (octave - 1) * 12 + a) (zip gt octaves) = gt"
  proof (intro nth_equalityI)
    show "length (map (\<lambda>(note, octave). note + (octave - 1) * 12 + a) (zip gt octaves)) = length gt"
      using len by simp
  next
    fix i assume "i < length (map (\<lambda>(note, octave). note + (octave - 1) * 12 + a) (zip gt octaves))"
    with len have i: "i < length gt" "i < length octaves" by simp_all
    then have "octaves ! i \<in> set octaves" by simp
    with rng have "octaves ! i = 1" by auto
    with i a0 show "map (\<lambda>(note, octave). note + (octave - 1) * 12 + a) (zip gt octaves) ! i = gt ! i"
      by simp
  qed
  have "display = join ''_'' (map str_int gt)" unfolding disp same ..
  moreover from adj have "\<forall>i. Suc i < length gt \<longrightarrow> gt ! i \<noteq> gt ! Suc i"
    by (simp add: distinct_adj_conv_nth)
  ultimately show ?thesis using sel by blast
qed

theorem generate_test_sequence_one_octave_C_witness:
  "generate_test_sequence 3 ''do re mi'' 1 ''C'' (\<lambda>i. 0) = Inr (''60_62_60'', [60, 62, 60]) \<and>
   ''60_62_60'' = join ''_'' (map str_int [60, 62, 60]) \<and>
   (\<exists>sel. selected_midi_notes ''do re mi'' = Inr sel \<and> set [60, 62, 60] \<subseteq> set sel) \<and>
   (\<forall>i. Suc i < length [60, 62, 60 :: int] \<longrightarrow> [60, 62, 60 :: int] ! i \<noteq> [60, 62, 60] ! Suc i)"
proof -
  have h: "generate_test_sequence 3 ''do re mi'' 1 ''C'' (\<lambda>i. 0) = Inr (''60_62_60'', [60, 62, 60])"
    by (simp add: generate_test_sequence_def key_to_adjustment_def generator_eval)
  from h generate_test_sequence_one_octave_C [OF h] show ?thesis by (rule conjI)
qed

section \<open>The session\<close>

text \<open>
  C9. On a session with no guess, \<^verbatim>\<open>remove_user_guess\<close> returns the session as it was
  (guesses, clock and running flag) and prints one state line. The function has no
  exception to return: its only \<^verbatim>\<open>pop\<close> is guarded.
\<close>

theorem remove_user_guess_empty:
  assumes "user_guesses g = []"
  shows "remove_user_guess g = (g, [StateLine (elapsed_time g) []])"
  using assms by (simp add: remove_user_guess_def notify_gui_def)

theorem remove_user_guess_empty_witness:
  "user_guesses init_game = [] \<and>
   remove_user_guess init_game = (init_game, [StateLine (elapsed_time init_game) []])"
proof -
  have h: "user_guesses init_game = []" by (simp add: init_game_def)
  from remove_user_guess_empty [OF h] h show ?thesis by simp
qed

section \<open>The clock\<close>




end
